theory Spec2Isabelle
  imports Main "HOL-Library.Word"
begin

unbundle bit_operations_syntax

section \<open>Data model (sid.go, lines 13-19)\<close>

type_synonym byte = "8 word"
type_synonym uint32 = "32 word"
type_synonym uint64 = "64 word"

text \<open>
  A Go \<^verbatim>\<open>[6]byte\<close> has exactly six elements, so it is a constructor with six
  fields and not a list. \<open>slice6\<close> is the slice expression \<^verbatim>\<open>a[:]\<close>.
\<close>

datatype Array6 = Array6 byte byte byte byte byte byte

fun slice6 :: "Array6 \<Rightarrow> byte list" where
  "slice6 (Array6 b0 b1 b2 b3 b4 b5) = [b0, b1, b2, b3, b4, b5]"

record RPCSID =
  Revision :: byte
  SubAuthorityCount :: byte
  IdentifierAuthority :: Array6
  SubAuthority :: "uint32 list"

text \<open>The zero value \<^verbatim>\<open>RPCSID{}\<close>; a nil slice is the empty list.\<close>

definition zero_RPCSID :: RPCSID where
  "zero_RPCSID =
     \<lparr>Revision = 0, SubAuthorityCount = 0,
      IdentifierAuthority = Array6 0 0 0 0 0 0, SubAuthority = []\<rparr>"

section \<open>The Go standard library functions that sid.go calls\<close>

text \<open>
  A Go string is a sequence of bytes, as an Isabelle \<open>string\<close> is. The functions below
  follow the standard library's behaviour at the arguments sid.go passes.
\<close>

subsection \<open>fmt with the verb \<^verbatim>\<open>%d\<close> on an unsigned integer\<close>

text \<open>The digit table of \<^verbatim>\<open>strconv\<close>, cut to base 10.\<close>

definition digits :: string where
  "digits = ''0123456789''"

definition digit_char :: "nat \<Rightarrow> char" where
  "digit_char d = digits ! d"

fun fmt_d :: "nat \<Rightarrow> string" where
  "fmt_d n = (if n < 10 then [digit_char n] else fmt_d (n div 10) @ [digit_char (n mod 10)])"

declare fmt_d.simps [simp del]

subsection \<open>encoding/hex: EncodeToString\<close>

definition hextable :: string where
  "hextable = ''0123456789abcdef''"

fun EncodeToString :: "byte list \<Rightarrow> string" where
  "EncodeToString [] = []"
| "EncodeToString (v # src) =
     hextable ! unat (drop_bit 4 v) # hextable ! unat (v AND 0x0f) # EncodeToString src"

subsection \<open>encoding/binary\<close>

text \<open>
  \<^verbatim>\<open>binary.BigEndian.Uint64(b)\<close> reads \<^verbatim>\<open>b[0..7]\<close> and panics when \<^verbatim>\<open>b\<close> is shorter
  than eight bytes; the panic is \<open>None\<close>.
\<close>

definition Uint64 :: "byte list \<Rightarrow> uint64 option" where
  "Uint64 b =
     (if length b < 8 then None
      else Some (ucast (b ! 7) OR push_bit 8 (ucast (b ! 6)) OR push_bit 16 (ucast (b ! 5))
                 OR push_bit 24 (ucast (b ! 4)) OR push_bit 32 (ucast (b ! 3))
                 OR push_bit 40 (ucast (b ! 2)) OR push_bit 48 (ucast (b ! 1))
                 OR push_bit 56 (ucast (b ! 0))))"

definition AppendUint32 :: "byte list \<Rightarrow> uint32 \<Rightarrow> byte list" where
  "AppendUint32 b v =
     b @ [ucast (drop_bit 24 v), ucast (drop_bit 16 v), ucast (drop_bit 8 v), ucast v]"

text \<open>What \<^verbatim>\<open>binary.Write(w, binary.LittleEndian, v)\<close> hands to the writer for a \<^verbatim>\<open>uint32\<close>.\<close>

definition PutUint32_le :: "uint32 \<Rightarrow> byte list" where
  "PutUint32_le v = [ucast v, ucast (drop_bit 8 v), ucast (drop_bit 16 v), ucast (drop_bit 24 v)]"

definition MaxUint32 :: nat where
  "MaxUint32 = 4294967295"

subsection \<open>strings.Split with a one-byte separator\<close>

text \<open>
  Cut at the first separator, keep what is before it, go on after it; the last piece
  is what is left when no separator remains.
\<close>

function Split :: "string \<Rightarrow> char \<Rightarrow> string list" where
  "Split s sep =
     (if sep \<in> set s
      then takeWhile (\<lambda>c. c \<noteq> sep) s # Split (tl (dropWhile (\<lambda>c. c \<noteq> sep) s)) sep
      else [s])"
  by pat_completeness auto
termination
proof (relation "measure (\<lambda>(s, sep). length s)")
  show "wf (measure (\<lambda>(s, sep). length s))" by simp
next
  fix s :: string and sep :: char
  assume "sep \<in> set s"
  then have "dropWhile (\<lambda>c. c \<noteq> sep) s \<noteq> []" by simp
  then have "length (tl (dropWhile (\<lambda>c. c \<noteq> sep) s)) < length (dropWhile (\<lambda>c. c \<noteq> sep) s)"
    by (cases "dropWhile (\<lambda>c. c \<noteq> sep) s") simp_all
  also have "\<dots> \<le> length s" by (rule length_dropWhile_le)
  finally show "((tl (dropWhile (\<lambda>c. c \<noteq> sep) s), sep), (s, sep)) \<in> measure (\<lambda>(s, sep). length s)"
    by simp
qed

declare Split.simps [simp del]

subsection \<open>strconv.ParseUint(s, 10, 32)\<close>

datatype NumError = ErrSyntax | ErrRange

text \<open>
  The loop of \<^verbatim>\<open>ParseUint\<close> at base 10 and bit size 32, on the running value \<open>n\<close>
  (a \<^verbatim>\<open>uint64\<close>, here a natural number with the wrap-around written out). A byte that
  is not a digit is a syntax error: a letter is a digit value of at least 10, which is
  not below the base. \<open>cutoff\<close> is \<^verbatim>\<open>maxUint64/10 + 1\<close> and \<open>maxVal\<close> is \<^verbatim>\<open>1<<32 - 1\<close>.
\<close>

definition cutoff :: nat where
  "cutoff = (2 ^ 64 - 1) div 10 + 1"

definition is_digit :: "char \<Rightarrow> bool" where
  "is_digit c \<longleftrightarrow> 48 \<le> (of_char c :: nat) \<and> (of_char c :: nat) \<le> 57"

fun ParseUint_loop :: "nat \<Rightarrow> string \<Rightarrow> NumError + nat" where
  "ParseUint_loop n [] = Inr n"
| "ParseUint_loop n (c # cs) =
     (if \<not> is_digit c then Inl ErrSyntax
      else let d = of_char c - 48 in
        if n \<ge> cutoff then Inl ErrRange
        else let n' = (n * 10) mod 2 ^ 64; n1 = (n' + d) mod 2 ^ 64 in
          if n1 < n' \<or> n1 > MaxUint32 then Inl ErrRange
          else ParseUint_loop n1 cs)"

definition ParseUint :: "string \<Rightarrow> NumError + nat" where
  "ParseUint s = (if s = [] then Inl ErrSyntax else ParseUint_loop 0 s)"

section \<open>String (sid.go, lines 22-38)\<close>

text \<open>
  The builder is the string written so far. The only operation of the body that can
  panic is \<^verbatim>\<open>binary.BigEndian.Uint64\<close>; a panic is \<open>None\<close>.
\<close>

definition String :: "RPCSID \<Rightarrow> string option" where
  "String s =
     (let strb = ''S-1-'';
          b = replicate 2 0 @ slice6 (IdentifierAuthority s)
      in case Uint64 b of
           None \<Rightarrow> None
         | Some i \<Rightarrow>
             let strb = (if unat i > MaxUint32
                         then strb @ ''0x'' @ EncodeToString (slice6 (IdentifierAuthority s))
                         else strb @ fmt_d (unat i))
             in Some (foldl (\<lambda>strb sub. strb @ ''-'' @ fmt_d (unat sub)) strb (SubAuthority s)))"

section \<open>ToWriter (sid.go, lines 40-61)\<close>

text \<open>
  An \<^verbatim>\<open>io.Writer\<close> is a function from the writer's state and a chunk of bytes to an
  optional error and the writer's next state. A sink pairs the writer's state with the
  bytes of the \<^verbatim>\<open>Write\<close> calls that returned no error so far.
\<close>

type_synonym 'w writer = "'w \<Rightarrow> byte list \<Rightarrow> string option \<times> 'w"

record 'w sink =
  state :: 'w
  accepted :: "byte list"

datatype werror = WriteError string | IndexOutOfRange nat nat

definition binary_Write :: "'w writer \<Rightarrow> 'w sink \<Rightarrow> byte list \<Rightarrow> werror option \<times> 'w sink" where
  "binary_Write wr w bs =
     (case wr (state w) bs of
        (None, st) \<Rightarrow> (None, \<lparr>state = st, accepted = accepted w @ bs\<rparr>)
      | (Some e, st) \<Rightarrow> (Some (WriteError e), \<lparr>state = st, accepted = accepted w\<rparr>))"

text \<open>
  The loop of lines 54-59 from index \<open>i\<close>. Indexing \<^verbatim>\<open>s.SubAuthority[i]\<close> at or past
  the length panics with "index out of range [i] with length n".
\<close>

function ToWriter_loop ::
  "'w writer \<Rightarrow> RPCSID \<Rightarrow> nat \<Rightarrow> 'w sink \<Rightarrow> werror option \<times> 'w sink" where
  "ToWriter_loop wr s i w =
     (if i < unat (SubAuthorityCount s)
      then if i \<ge> length (SubAuthority s)
           then (Some (IndexOutOfRange i (length (SubAuthority s))), w)
           else (case binary_Write wr w (PutUint32_le (SubAuthority s ! i)) of
                   (Some err, w') \<Rightarrow> (Some err, w')
                 | (None, w') \<Rightarrow> ToWriter_loop wr s (i + 1) w')
      else (None, w))"
  by pat_completeness auto
termination
  by (relation "measure (\<lambda>(wr, s, i, w). unat (SubAuthorityCount s) - i)") auto

declare ToWriter_loop.simps [simp del]

definition ToWriter :: "'w writer \<Rightarrow> RPCSID \<Rightarrow> 'w sink \<Rightarrow> werror option \<times> 'w sink" where
  "ToWriter wr s w =
     (case binary_Write wr w [Revision s] of
        (Some err, w1) \<Rightarrow> (Some err, w1)
      | (None, w1) \<Rightarrow>
          (case binary_Write wr w1 [SubAuthorityCount s] of
             (Some err, w2) \<Rightarrow> (Some err, w2)
           | (None, w2) \<Rightarrow>
               (case binary_Write wr w2 (slice6 (IdentifierAuthority s)) of
                  (Some err, w3) \<Rightarrow> (Some err, w3)
                | (None, w3) \<Rightarrow> ToWriter_loop wr s 0 w3)))"

text \<open>Two writers: a buffer that takes everything, and one that is full after \<open>cap\<close> bytes.\<close>

definition buffer_writer :: "unit writer" where
  "buffer_writer st bs = (None, st)"

definition limited_writer :: "nat \<Rightarrow> nat writer" where
  "limited_writer cap st bs =
     (if st + length bs > cap then (Some ''short write'', st) else (None, st + length bs))"

definition new_sink :: "'w \<Rightarrow> 'w sink" where
  "new_sink st = \<lparr>state = st, accepted = []\<rparr>"

section \<open>ConvertStrToSID (sid.go, lines 63-95)\<close>

datatype error =
    InvalidSIDRepresentation
  | RevisionError NumError
  | AuthorityError NumError
  | SubAuthorityError NumError

text \<open>
  \<^verbatim>\<open>copy(dst[:], src)\<close> on a six-byte array: the first \<open>min 6 (length src)\<close> bytes of
  the array are overwritten.
\<close>

definition copy6 :: "Array6 \<Rightarrow> byte list \<Rightarrow> Array6" where
  "copy6 dst src =
     (let l = take 6 src @ drop (length src) (slice6 dst)
      in Array6 (l ! 0) (l ! 1) (l ! 2) (l ! 3) (l ! 4) (l ! 5))"

text \<open>
  The loop of lines 84-91 over \<^verbatim>\<open>parts[3:]\<close>. \<open>subCount\<close> is a byte, so
  \<^verbatim>\<open>subCount += 1\<close> wraps around at 256.
\<close>

fun sub_loop :: "string list \<Rightarrow> byte \<Rightarrow> uint32 list \<Rightarrow> NumError + (byte \<times> uint32 list)" where
  "sub_loop [] subCount subAuths = Inr (subCount, subAuths)"
| "sub_loop (part # rest) subCount subAuths =
     (case ParseUint part of
        Inl err \<Rightarrow> Inl err
      | Inr subA \<Rightarrow> sub_loop rest (subCount + 1) (subAuths @ [of_nat subA]))"

text \<open>
  The result is the pair of named results \<^verbatim>\<open>(sid *RPCSID, err error)\<close>: \<open>None\<close> is
  \<^verbatim>\<open>nil\<close>. The bare \<^verbatim>\<open>return\<close> of line 68 returns the \<^verbatim>\<open>sid\<close> assigned on line 64.
\<close>

definition ConvertStrToSID :: "string \<Rightarrow> RPCSID option \<times> error option" where
  "ConvertStrToSID s =
     (let sid = zero_RPCSID;
          parts = Split s (CHR ''-'')
      in if length parts < 4 then (Some sid, Some InvalidSIDRepresentation)
         else case ParseUint (parts ! 1) of
           Inl err \<Rightarrow> (None, Some (RevisionError err))
         | Inr rev' \<Rightarrow>
             let sid = sid\<lparr>Revision := of_nat rev'\<rparr> in
             (case ParseUint (parts ! 2) of
                Inl err \<Rightarrow> (None, Some (AuthorityError err))
              | Inr auth \<Rightarrow>
                  let authBuf = replicate 2 0;
                      authBuf = AppendUint32 authBuf (of_nat auth);
                      sid = sid\<lparr>IdentifierAuthority := copy6 (IdentifierAuthority sid) authBuf\<rparr>
                  in (case sub_loop (drop 3 parts) 0 [] of
                        Inl err \<Rightarrow> (None, Some (SubAuthorityError err))
                      | Inr (subCount, subAuths) \<Rightarrow>
                          (Some (sid\<lparr>SubAuthority := subAuths, SubAuthorityCount := subCount\<rparr>),
                           None))))"

section \<open>Quantities the properties are stated in\<close>

text \<open>The six authority bytes read as one 48-bit big-endian number.\<close>

fun authority_value :: "Array6 \<Rightarrow> nat" where
  "authority_value (Array6 b0 b1 b2 b3 b4 b5) =
     unat b0 * 2 ^ 40 + unat b1 * 2 ^ 32 + unat b2 * 2 ^ 24 + unat b3 * 2 ^ 16
       + unat b4 * 2 ^ 8 + unat b5"

text \<open>Two lowercase hexadecimal characters per byte, high nibble first.\<close>

definition hex_byte :: "byte \<Rightarrow> string" where
  "hex_byte b = [''0123456789abcdef'' ! (unat b div 16), ''0123456789abcdef'' ! (unat b mod 16)]"

definition lower_hex :: "byte list \<Rightarrow> string" where
  "lower_hex bs = concat (map hex_byte bs)"

text \<open>The text of the sub-authorities: each one as a dash and its decimal value.\<close>

definition sub_text :: "uint32 list \<Rightarrow> string" where
  "sub_text subs = concat (map (\<lambda>sub. CHR ''-'' # fmt_d (unat sub)) subs)"

text \<open>
  A decimal unsigned integer that fits in 32 bits: a non-empty string of digits whose
  value is at most 4294967295.
\<close>

definition dec_value :: "string \<Rightarrow> nat" where
  "dec_value s = foldl (\<lambda>a c. a * 10 + (of_char c - 48)) 0 s"

definition valid_decimal :: "string \<Rightarrow> bool" where
  "valid_decimal s \<longleftrightarrow> s \<noteq> [] \<and> list_all is_digit s \<and> dec_value s \<le> 4294967295"

text \<open>A 32-bit value as four bytes, least significant first.\<close>

definition u32_le :: "uint32 \<Rightarrow> byte list" where
  "u32_le v =
     map of_nat [unat v mod 256, unat v div 256 mod 256, unat v div 65536 mod 256,
                 unat v div 16777216 mod 256]"

text \<open>The wire format with \<open>n\<close> sub-authority entries.\<close>

definition wire_format :: "RPCSID \<Rightarrow> nat \<Rightarrow> byte list" where
  "wire_format s n =
     [Revision s, SubAuthorityCount s] @ slice6 (IdentifierAuthority s)
       @ concat (map u32_le (take n (SubAuthority s)))"

text \<open>A writer that rejects no write.\<close>

definition accepts_all :: "'w writer \<Rightarrow> bool" where
  "accepts_all wr \<longleftrightarrow> (\<forall>st bs. fst (wr st bs) = None)"

text \<open>The parts of a string, as \<open>ConvertStrToSID\<close> cuts it.\<close>

definition parts_of :: "string \<Rightarrow> string list" where
  "parts_of s = Split s (CHR ''-'')"

section \<open>Decimal text: rendering and parsing\<close>

lemma digit_char_props:
  assumes "d < 10"
  shows "is_digit (digit_char d)" and "of_char (digit_char d) - 48 = d"
proof -
  from assms have "d \<in> {0, 1, 2, 3, 4, 5, 6, 7, 8, 9}" by auto
  then show "is_digit (digit_char d)" and "of_char (digit_char d) - 48 = d"
    by (auto simp add: digit_char_def digits_def is_digit_def)
qed

lemma is_digit_not_dash: "is_digit c \<Longrightarrow> c \<noteq> CHR ''-''"
  by (auto simp add: is_digit_def)

lemma fmt_d_is_digit: "c \<in> set (fmt_d n) \<Longrightarrow> is_digit c"
proof (induction n rule: fmt_d.induct)
  case (1 n)
  show ?case
  proof (cases "n < 10")
    case True
    with "1.prems" show ?thesis
      by (simp add: fmt_d.simps [of n] digit_char_props)
  next
    case False
    with "1.prems" "1.IH" show ?thesis
      by (auto simp add: fmt_d.simps [of n] digit_char_props)
  qed
qed

lemma fmt_d_not_Nil: "fmt_d n \<noteq> []"
  by (simp add: fmt_d.simps [of n])

lemma fmt_d_no_dash: "CHR ''-'' \<notin> set (fmt_d n)"
  using fmt_d_is_digit is_digit_not_dash by blast

lemma ParseUint_loop_digit:
  assumes "is_digit c" and "n * 10 + (of_char c - 48) \<le> MaxUint32"
  shows "ParseUint_loop n (c # cs) = ParseUint_loop (n * 10 + (of_char c - 48)) cs"
proof -
  from assms(2) have "n < cutoff" and "n * 10 < 2 ^ 64" and "n * 10 + (of_char c - 48) < 2 ^ 64"
    by (simp_all add: MaxUint32_def cutoff_def)
  with assms show ?thesis
    by (simp add: Let_def)
qed

lemma ParseUint_loop_range:
  assumes "is_digit c" and "n \<le> MaxUint32" and "n * 10 + (of_char c - 48) > MaxUint32"
  shows "ParseUint_loop n (c # cs) = Inl ErrRange"
proof -
  from assms(1) have "(of_char c :: nat) - 48 \<le> 9" unfolding is_digit_def by linarith
  with assms(2) have "n < cutoff" and "n * 10 < 2 ^ 64" and "n * 10 + (of_char c - 48) < 2 ^ 64"
    by (simp_all add: MaxUint32_def cutoff_def)
  with assms show ?thesis
    by (simp add: Let_def)
qed

lemma ParseUint_loop_syntax: "\<not> is_digit c \<Longrightarrow> ParseUint_loop n (c # cs) = Inl ErrSyntax"
  by simp

lemma ParseUint_loop_append:
  "ParseUint_loop n (xs @ ys) =
     (case ParseUint_loop n xs of Inl e \<Rightarrow> Inl e | Inr m \<Rightarrow> ParseUint_loop m ys)"
  by (induction xs arbitrary: n) (simp_all add: Let_def)

lemma ParseUint_loop_fmt_d: "n \<le> MaxUint32 \<Longrightarrow> ParseUint_loop 0 (fmt_d n) = Inr n"
proof (induction n rule: fmt_d.induct)
  case (1 n)
  show ?case
  proof (cases "n < 10")
    case True
    with "1.prems" have "ParseUint_loop 0 [digit_char n] = ParseUint_loop n []"
      by (subst ParseUint_loop_digit) (simp_all add: digit_char_props)
    with True show ?thesis
      by (simp add: fmt_d.simps [of n])
  next
    case False
    from "1.prems" have "n div 10 \<le> MaxUint32" by simp
    with False "1.IH" have hd: "ParseUint_loop 0 (fmt_d (n div 10)) = Inr (n div 10)"
      by simp
    have "ParseUint_loop (n div 10) [digit_char (n mod 10)] = ParseUint_loop n []"
      using "1.prems" by (subst ParseUint_loop_digit) (simp_all add: digit_char_props)
    with False hd show ?thesis
      by (simp add: fmt_d.simps [of n] ParseUint_loop_append)
  qed
qed

lemma ParseUint_fmt_d: "n \<le> MaxUint32 \<Longrightarrow> ParseUint (fmt_d n) = Inr n"
  by (simp add: ParseUint_def fmt_d_not_Nil ParseUint_loop_fmt_d)

lemma unat_uint32_le: "unat (w :: uint32) \<le> MaxUint32"
  using unsigned_less [of w, where ?'a = nat] by (simp add: MaxUint32_def)

lemma ParseUint_fmt_d_uint32: "ParseUint (fmt_d (unat (w :: uint32))) = Inr (unat w)"
  by (simp add: ParseUint_fmt_d unat_uint32_le)

section \<open>Splitting and the loops over the parts\<close>

lemma Split_no_sep: "sep \<notin> set s \<Longrightarrow> Split s sep = [s]"
  by (simp add: Split.simps [of s])

lemma Split_append_sep:
  assumes "sep \<notin> set p"
  shows "Split (p @ sep # r) sep = p # Split r sep"
proof -
  from assms have tw: "takeWhile (\<lambda>c. c \<noteq> sep) (p @ sep # r) = p"
    by (induction p) auto
  from assms have dw: "dropWhile (\<lambda>c. c \<noteq> sep) (p @ sep # r) = sep # r"
    by (induction p) auto
  show ?thesis
    by (subst Split.simps) (simp add: tw dw)
qed

lemma Split_length: "length (Split s sep) = Suc (length (filter (\<lambda>c. c = sep) s))"
proof (induction s sep rule: Split.induct)
  case (1 s sep)
  show ?case
  proof (cases "sep \<in> set s")
    case False
    then have "filter (\<lambda>c. c = sep) s = []"
      by (auto simp add: filter_empty_conv)
    with False show ?thesis by (simp add: Split_no_sep)
  next
    case True
    define p where "p = takeWhile (\<lambda>c. c \<noteq> sep) s"
    define r where "r = tl (dropWhile (\<lambda>c. c \<noteq> sep) s)"
    from True have "dropWhile (\<lambda>c. c \<noteq> sep) s \<noteq> []" by simp
    moreover from this have "hd (dropWhile (\<lambda>c. c \<noteq> sep) s) = sep"
      using hd_dropWhile [of "\<lambda>c. c \<noteq> sep" s] by simp
    ultimately have dw: "dropWhile (\<lambda>c. c \<noteq> sep) s = sep # r"
      unfolding r_def by (cases "dropWhile (\<lambda>c. c \<noteq> sep) s") simp_all
    have s: "s = p @ sep # r"
      unfolding p_def using dw takeWhile_dropWhile_id [of "\<lambda>c. c \<noteq> sep" s] by simp
    have nop: "sep \<notin> set p"
      unfolding p_def by (auto dest: set_takeWhileD)
    then have fp: "filter (\<lambda>c. c = sep) p = []"
      by (auto simp add: filter_empty_conv)
    from True "1.IH" have "length (Split r sep) = Suc (length (filter (\<lambda>c. c = sep) r))"
      unfolding r_def by simp
    then show ?thesis
      unfolding s by (simp add: Split_append_sep nop fp)
  qed
qed

lemma Split_joined:
  assumes "sep \<notin> set p" and "\<And>x. sep \<notin> set (f x)"
  shows "Split (p @ concat (map (\<lambda>x. sep # f x) xs)) sep = p # map f xs"
  using assms(1)
proof (induction xs arbitrary: p)
  case Nil
  then show ?case by (simp add: Split_no_sep)
next
  case (Cons x xs)
  have "Split (p @ sep # (f x @ concat (map (\<lambda>x. sep # f x) xs))) sep
      = p # Split (f x @ concat (map (\<lambda>x. sep # f x) xs)) sep"
    using Cons.prems by (rule Split_append_sep)
  also have "Split (f x @ concat (map (\<lambda>x. sep # f x) xs)) sep = f x # map f xs"
    by (rule Cons.IH) (rule assms(2))
  finally show ?case by simp
qed

lemma foldl_builder:
  "foldl (\<lambda>strb sub. strb @ sep # f sub) strb xs = strb @ concat (map (\<lambda>sub. sep # f sub) xs)"
  by (induction xs arbitrary: strb) simp_all

lemma sub_loop_result:
  "sub_loop parts subCount subAuths = Inr (c, subs) \<Longrightarrow>
     c = subCount + of_nat (length parts) \<and> length subs = length subAuths + length parts"
proof (induction parts arbitrary: subCount subAuths)
  case Nil
  then show ?case by simp
next
  case (Cons part rest)
  then show ?case by (fastforce split: sum.splits)
qed

lemma sub_loop_rendered:
  "sub_loop (map (\<lambda>sub. fmt_d (unat sub)) subs) subCount subAuths
     = Inr (subCount + of_nat (length subs), subAuths @ subs)"
  by (induction subs arbitrary: subCount subAuths) (simp_all add: ParseUint_fmt_d_uint32)

section \<open>Bytes and words\<close>

lemma or_byte_add:
  fixes hi :: uint64 and lo :: byte
  shows "push_bit 8 hi OR ucast lo = push_bit 8 hi + ucast lo"
  by (rule disjunctive_add [symmetric]) (auto simp add: bit_simps dest: bit_imp_le_length)

lemma be_bytes_horner:
  fixes b0 b1 b2 b3 b4 b5 :: byte
  shows "(ucast b5 OR push_bit 8 (ucast b4) OR push_bit 16 (ucast b3)
            OR push_bit 24 (ucast b2) OR push_bit 32 (ucast b1) OR push_bit 40 (ucast b0) :: uint64)
         = push_bit 8 (push_bit 8 (push_bit 8 (push_bit 8 (push_bit 8 (ucast b0) OR ucast b1) OR ucast b2) OR ucast b3) OR ucast b4) OR ucast b5"
  by (simp add: bit_eq_iff bit_simps) (auto dest: bit_imp_le_length)

lemma unat_ucast_byte: "unat (ucast (lo :: byte) :: uint64) = unat lo"
proof -
  have "unat lo < 2 ^ 64"
    using unsigned_less [of lo, where ?'a = nat] by simp
  then show ?thesis
    by (simp add: unsigned_ucast_eq take_bit_nat_eq_self)
qed

lemma unat_push8_add:
  fixes hi :: uint64 and lo :: byte
  assumes "unat hi < 2 ^ 56"
  shows "unat (push_bit 8 hi OR ucast lo) = unat hi * 256 + unat lo"
proof -
  have lo: "unat lo < 256" using unsigned_less [of lo, where ?'a = nat] by simp
  have "push_bit 8 hi OR ucast lo = hi * 256 + ucast lo"
    unfolding or_byte_add by (simp add: push_bit_eq_mult)
  then have "unat (push_bit 8 hi OR ucast lo) = unat (hi * 256 + ucast lo)"
    by simp
  also have "\<dots> = (unat hi * 256 + unat lo) mod 2 ^ 64"
    by (simp add: unat_word_ariths unat_ucast_byte mod_simps)
  also have "\<dots> = unat hi * 256 + unat lo"
    using assms lo by simp
  finally show ?thesis .
qed

lemma byte_of_u32:
  fixes b2 b3 b4 b5 :: byte
  defines "i \<equiv> (ucast b5 OR push_bit 8 (ucast b4) OR push_bit 16 (ucast b3) OR push_bit 24 (ucast b2) :: uint64)"
  shows "AppendUint32 [0,0] (of_nat (unat i)) = [0,0,b2,b3,b4,b5]"
  unfolding AppendUint32_def i_def
  apply (simp add: bit_eq_iff bit_simps)
  apply (auto dest: bit_imp_le_length)
  done


lemma be48_unat:
  fixes b0 b1 b2 b3 b4 b5 :: byte
  shows "unat (ucast b5 OR push_bit 8 (ucast b4) OR push_bit 16 (ucast b3)
            OR push_bit 24 (ucast b2) OR push_bit 32 (ucast b1) OR push_bit 40 (ucast b0) :: uint64)
         = ((((unat b0 * 256 + unat b1) * 256 + unat b2) * 256 + unat b3) * 256 + unat b4) * 256 + unat b5"
proof -
  define w0 :: uint64 where "w0 = ucast b0"
  define w1 where "w1 = push_bit 8 w0 OR ucast b1"
  define w2 where "w2 = push_bit 8 w1 OR ucast b2"
  define w3 where "w3 = push_bit 8 w2 OR ucast b3"
  define w4 where "w4 = push_bit 8 w3 OR ucast b4"
  define w5 where "w5 = push_bit 8 w4 OR ucast b5"
  have lt: "unat b < 256" for b :: byte
    using unsigned_less [of b, where ?'a = nat] by simp
  have u0: "unat w0 = unat b0"
    unfolding w0_def by (rule unat_ucast_byte)
  have u1: "unat w1 = unat b0 * 256 + unat b1"
    unfolding w1_def using lt [of b0] by (subst unat_push8_add) (simp_all add: u0)
  have u2: "unat w2 = (unat b0 * 256 + unat b1) * 256 + unat b2"
    unfolding w2_def using lt [of b0] lt [of b1]
    by (subst unat_push8_add) (simp_all add: u1)
  have u3: "unat w3 = ((unat b0 * 256 + unat b1) * 256 + unat b2) * 256 + unat b3"
    unfolding w3_def using lt [of b0] lt [of b1] lt [of b2]
    by (subst unat_push8_add) (simp_all add: u2)
  have u4: "unat w4 = (((unat b0 * 256 + unat b1) * 256 + unat b2) * 256 + unat b3) * 256 + unat b4"
    unfolding w4_def using lt [of b0] lt [of b1] lt [of b2] lt [of b3]
    by (subst unat_push8_add) (simp_all add: u3)
  have u5: "unat w5 = ((((unat b0 * 256 + unat b1) * 256 + unat b2) * 256 + unat b3) * 256 + unat b4) * 256 + unat b5"
    unfolding w5_def using lt [of b0] lt [of b1] lt [of b2] lt [of b3] lt [of b4]
    by (subst unat_push8_add) (simp_all add: u4)
  have "(ucast b5 OR push_bit 8 (ucast b4) OR push_bit 16 (ucast b3)
            OR push_bit 24 (ucast b2) OR push_bit 32 (ucast b1) OR push_bit 40 (ucast b0) :: uint64) = w5"
    unfolding w5_def w4_def w3_def w2_def w1_def w0_def by (rule be_bytes_horner)
  then show ?thesis by (simp only: u5)
qed

lemma unat_hi_nibble: "unat (drop_bit 4 (v :: byte)) = unat v div 16"
  by (simp add: drop_bit_eq_div unat_div)

lemma unat_lo_nibble: "unat ((v :: byte) AND 0x0f) = unat v mod 16"
proof -
  have "v AND 0x0f = take_bit 4 v"
    by (simp add: take_bit_eq_mask mask_eq_exp_minus_1)
  then show ?thesis
    by (simp add: take_bit_eq_mod unat_mod)
qed

lemma le32_bytes:
  fixes v :: uint32
  shows "map unat (PutUint32_le v) =
     [unat v mod 256, unat v div 256 mod 256, unat v div 65536 mod 256, unat v div 16777216 mod 256]"
  by (simp add: PutUint32_le_def unsigned_ucast_eq take_bit_eq_mod drop_bit_eq_div unat_div)

lemma dec_from_ge: "a \<le> foldl (\<lambda>a c. a * 10 + (of_char c - 48)) (a::nat) s"
proof (induction s arbitrary: a)
  case Nil
  show ?case by simp
next
  case (Cons c cs)
  have "a \<le> a * 10 + (of_char c - 48)" by simp
  also have "\<dots> \<le> foldl (\<lambda>a c. a * 10 + (of_char c - 48)) (a * 10 + (of_char c - 48)) cs"
    by (rule Cons.IH)
  finally show ?case by simp
qed

lemma ParseUint_loop_Inr_iff:
  assumes "n0 \<le> MaxUint32"
  shows "ParseUint_loop n0 s = Inr m \<longleftrightarrow>
     (\<forall>c\<in>set s. is_digit c) \<and> foldl (\<lambda>a c. a * 10 + (of_char c - 48)) n0 s \<le> MaxUint32
       \<and> m = foldl (\<lambda>a c. a * 10 + (of_char c - 48)) n0 s"
  using assms
proof (induction s arbitrary: n0)
  case Nil
  then show ?case by auto
next
  case (Cons c cs)
  show ?case
  proof (cases "is_digit c")
    case False
    then show ?thesis by simp
  next
    case True
    show ?thesis
    proof (cases "n0 * 10 + (of_char c - 48) \<le> MaxUint32")
      case small: True
      from True small have "ParseUint_loop n0 (c # cs) = ParseUint_loop (n0 * 10 + (of_char c - 48)) cs"
        by (rule ParseUint_loop_digit)
      with True Cons.IH [OF small] show ?thesis by simp
    next
      case big: False
      from big have "n0 * 10 + (of_char c - 48) > MaxUint32" by simp
      with True Cons.prems have "ParseUint_loop n0 (c # cs) = Inl ErrRange"
        by (rule ParseUint_loop_range)
      moreover have "\<not> foldl (\<lambda>a c. a * 10 + (of_char c - 48)) (n0 * 10 + (of_char c - 48)) cs \<le> MaxUint32"
        using big dec_from_ge [of "n0 * 10 + (of_char c - 48)" cs] by linarith
      ultimately show ?thesis by simp
    qed
  qed
qed

section \<open>String\<close>

lemma Uint64_authority:
  "\<exists>i. Uint64 (replicate 2 0 @ slice6 a) = Some i \<and> unat i = authority_value a"
proof (cases a)
  case (Array6 b0 b1 b2 b3 b4 b5)
  have "replicate 2 (0::byte) = [0, 0]" by (simp add: numeral_2_eq_2)
  then show ?thesis
    unfolding Array6 by (simp add: Uint64_def be48_unat)
qed

lemma EncodeToString_lower_hex: "EncodeToString bs = lower_hex bs"
  by (induction bs)
    (simp_all add: lower_hex_def hex_byte_def hextable_def unat_hi_nibble unat_lo_nibble)

lemma length_lower_hex: "length (lower_hex bs) = 2 * length bs"
  by (induction bs) (simp_all add: lower_hex_def hex_byte_def)

lemma length_slice6: "length (slice6 a) = 6"
  by (cases a) simp

lemma String_eq:
  "String s = Some (''S-1-''
     @ (if authority_value (IdentifierAuthority s) > 4294967295
        then ''0x'' @ lower_hex (slice6 (IdentifierAuthority s))
        else fmt_d (authority_value (IdentifierAuthority s)))
     @ sub_text (SubAuthority s))"
proof -
  obtain i where i: "Uint64 (replicate 2 0 @ slice6 (IdentifierAuthority s)) = Some i"
    and v: "unat i = authority_value (IdentifierAuthority s)"
    using Uint64_authority by blast
  show ?thesis
    unfolding String_def Let_def i
    by (simp add: v MaxUint32_def foldl_builder sub_text_def EncodeToString_lower_hex)
qed

lemma fmt_d_numeral:
  "fmt_d (numeral k) =
     (if (numeral k :: nat) < 10 then [digit_char (numeral k)]
      else fmt_d (numeral k div 10) @ [digit_char (numeral k mod 10)])"
  by (rule fmt_d.simps)

lemma fmt_d_one: "fmt_d (Suc 0) = ''1''"
  by (simp add: fmt_d.simps [of "Suc 0"] digit_char_def digits_def)

lemmas eval_text =
  fmt_d_numeral fmt_d_one digit_char_def digits_def sub_text_def lower_hex_def hex_byte_def

text \<open>
  C10. Rendering cannot fail: \<open>String\<close> returns a string for every SID, and the string
  is the same whatever \<open>SubAuthorityCount\<close> holds, since the loop runs over the
  \<open>SubAuthority\<close> sequence itself.
\<close>

theorem String_total:
  "(\<exists>str. String s = Some str) \<and> String (s\<lparr>SubAuthorityCount := c\<rparr>) = String s"
  by (simp add: String_eq)

theorem String_total_witness:
  "String \<lparr>Revision = 1, SubAuthorityCount = 5, IdentifierAuthority = Array6 0 0 0 0 0 5,
      SubAuthority = [10, 20, 30]\<rparr>
   = String \<lparr>Revision = 1, SubAuthorityCount = 3, IdentifierAuthority = Array6 0 0 0 0 0 5,
      SubAuthority = [10, 20, 30]\<rparr>"
  using String_total [of "\<lparr>Revision = 1, SubAuthorityCount = 3,
      IdentifierAuthority = Array6 0 0 0 0 0 5, SubAuthority = [10, 20, 30]\<rparr>" 5]
  by simp

text \<open>
  C6. For every SID the rendered string is \<open>S-1-\<close>, then the authority, then the
  sub-authorities. The authority is the six bytes read as a 48-bit big-endian number:
  above 4294967295 it is written as \<open>0x\<close> and the twelve lowercase hexadecimal
  characters of the six bytes, otherwise in decimal. Bytes \<open>{0,0,0,0,0,5}\<close> give
  \<open>S-1-5\<close> and bytes \<open>{1,0,0,0,0,0}\<close> give \<open>S-1-0x010000000000\<close>.
\<close>

theorem String_authority_threshold:
  "String s = Some (''S-1-''
     @ (if authority_value (IdentifierAuthority s) > 4294967295
        then ''0x'' @ lower_hex (slice6 (IdentifierAuthority s))
        else fmt_d (authority_value (IdentifierAuthority s)))
     @ sub_text (SubAuthority s))
   \<and> length (lower_hex (slice6 (IdentifierAuthority s))) = 12
   \<and> String \<lparr>Revision = r, SubAuthorityCount = c, IdentifierAuthority = Array6 0 0 0 0 0 5,
        SubAuthority = []\<rparr> = Some ''S-1-5''
   \<and> String \<lparr>Revision = r, SubAuthorityCount = c, IdentifierAuthority = Array6 1 0 0 0 0 0,
        SubAuthority = []\<rparr> = Some ''S-1-0x010000000000''"
proof -
  have "String \<lparr>Revision = r, SubAuthorityCount = c, IdentifierAuthority = Array6 0 0 0 0 0 5,
        SubAuthority = []\<rparr> = Some ''S-1-5''"
    by (simp add: String_eq eval_text)
  moreover have "String \<lparr>Revision = r, SubAuthorityCount = c,
        IdentifierAuthority = Array6 1 0 0 0 0 0, SubAuthority = []\<rparr> = Some ''S-1-0x010000000000''"
    by (simp add: String_eq eval_text)
  moreover have "length (lower_hex (slice6 (IdentifierAuthority s))) = 12"
    by (simp add: length_lower_hex length_slice6)
  ultimately show ?thesis
    using String_eq [of s] by simp
qed

theorem String_authority_threshold_witness:
  "String \<lparr>Revision = 1, SubAuthorityCount = 1,
      IdentifierAuthority = Array6 0x12 0x34 0x56 0x78 0x9a 0xbc, SubAuthority = [21]\<rparr>
     = Some ''S-1-0x123456789abc-21''
   \<and> String \<lparr>Revision = 1, SubAuthorityCount = 1,
      IdentifierAuthority = Array6 0 0 0xff 0xff 0xff 0xff, SubAuthority = [21]\<rparr>
     = Some ''S-1-4294967295-21''"
  using String_authority_threshold [of "\<lparr>Revision = 1, SubAuthorityCount = 1,
      IdentifierAuthority = Array6 0x12 0x34 0x56 0x78 0x9a 0xbc, SubAuthority = [21]\<rparr>"]
    String_authority_threshold [of "\<lparr>Revision = 1, SubAuthorityCount = 1,
      IdentifierAuthority = Array6 0 0 0xff 0xff 0xff 0xff, SubAuthority = [21]\<rparr>"]
  by (simp add: eval_text)

text \<open>
  C2, as the code has it. The rendered string begins with the fixed text \<open>S-1-\<close> for
  every SID and is the same whatever the revision field holds; that prefix is
  \<open>S-<revision>-\<close> when the revision is 1.
\<close>

theorem String_literal_prefix:
  "(\<exists>rest. String s = Some (''S-1-'' @ rest))
   \<and> String (s\<lparr>Revision := r\<rparr>) = String s
   \<and> (Revision s = 1 \<longrightarrow>
        (\<exists>rest. String s = Some (''S-'' @ fmt_d (unat (Revision s)) @ ''-'' @ rest)))"
  by (simp add: String_eq eval_text)

theorem String_literal_prefix_witness:
  "String \<lparr>Revision = 1, SubAuthorityCount = 1, IdentifierAuthority = Array6 0 0 0 0 0 5,
      SubAuthority = [21]\<rparr>
     = String \<lparr>Revision = 7, SubAuthorityCount = 1, IdentifierAuthority = Array6 0 0 0 0 0 5,
      SubAuthority = [21]\<rparr>
   \<and> (\<exists>rest. String \<lparr>Revision = 1, SubAuthorityCount = 1, IdentifierAuthority = Array6 0 0 0 0 0 5,
      SubAuthority = [21]\<rparr> = Some (''S-'' @ fmt_d (unat (1::byte)) @ ''-'' @ rest))"
  using String_literal_prefix [of "\<lparr>Revision = 1, SubAuthorityCount = 1,
      IdentifierAuthority = Array6 0 0 0 0 0 5, SubAuthority = [21]\<rparr>" 7]
  by simp

text \<open>
  The claim as written fails at revision 2: the string begins with \<open>S-1\<close>, and
  \<open>S-\<close> followed by the revision in decimal is \<open>S-2\<close>.
\<close>

theorem String_revision_counterexample:
  "String \<lparr>Revision = 2, SubAuthorityCount = 1, IdentifierAuthority = Array6 0 0 0 0 0 5,
      SubAuthority = [21]\<rparr> = Some ''S-1-5-21''
   \<and> ''S-'' @ fmt_d (unat (Revision \<lparr>Revision = 2, SubAuthorityCount = 1,
         IdentifierAuthority = Array6 0 0 0 0 0 5, SubAuthority = [21]\<rparr>)) = ''S-2''
   \<and> take 3 ''S-1-5-21'' \<noteq> ''S-2''"
  by (simp add: String_eq eval_text)

section \<open>ToWriter\<close>

lemma PutUint32_le_u32_le: "PutUint32_le v = u32_le v"
proof -
  have "map of_nat (map unat (PutUint32_le v)) = (PutUint32_le v :: byte list)"
    by (simp add: PutUint32_le_def)
  then show ?thesis
    unfolding le32_bytes u32_le_def by simp
qed

lemma length_u32_le: "length (u32_le v) = 4"
  by (simp add: u32_le_def)

lemma length_concat_u32_le: "length (concat (map u32_le xs)) = 4 * length xs"
  by (induction xs) (simp_all add: length_u32_le)

lemma binary_Write_cases:
  obtains (ok) st where "binary_Write wr w bs = (None, \<lparr>state = st, accepted = accepted w @ bs\<rparr>)"
    | (err) m st where "binary_Write wr w bs = (Some (WriteError m), \<lparr>state = st, accepted = accepted w\<rparr>)"
      and "fst (wr (state w) bs) = Some m"
proof -
  obtain a st where r: "wr (state w) bs = (a, st)"
    by (cases "wr (state w) bs")
  show thesis
  proof (cases a)
    case None
    with r have "binary_Write wr w bs = (None, \<lparr>state = st, accepted = accepted w @ bs\<rparr>)"
      by (simp add: binary_Write_def)
    then show thesis by (rule ok)
  next
    case (Some m)
    with r have "binary_Write wr w bs = (Some (WriteError m), \<lparr>state = st, accepted = accepted w\<rparr>)"
      and "fst (wr (state w) bs) = Some m"
      by (simp_all add: binary_Write_def)
    then show thesis by (rule err)
  qed
qed

lemma binary_Write_accepts:
  assumes "accepts_all wr"
  shows "\<exists>st. binary_Write wr w bs = (None, \<lparr>state = st, accepted = accepted w @ bs\<rparr>)"
proof (cases rule: binary_Write_cases [of wr w bs])
  case (ok st)
  then show ?thesis by blast
next
  case (err m st)
  with assms show ?thesis by (simp add: accepts_all_def)
qed

lemma drop_take_step:
  assumes "i < n" and "i < length xs"
  shows "drop i (take n xs) = xs ! i # drop (Suc i) (take n xs)"
proof -
  from assms have "i < length (take n xs)" by simp
  then have "drop i (take n xs) = take n xs ! i # drop (Suc i) (take n xs)"
    by (rule Cons_nth_drop_Suc [symmetric])
  with assms show ?thesis by simp
qed

lemma ToWriter_loop_spec:
  assumes "i \<le> length (SubAuthority s)"
  shows "(fst (ToWriter_loop wr s i w) = None \<longrightarrow>
            unat (SubAuthorityCount s) \<le> length (SubAuthority s))
       \<and> (\<forall>e. fst (ToWriter_loop wr s i w) = Some e \<longrightarrow>
            (\<exists>m. e = WriteError m \<and> \<not> accepts_all wr)
            \<or> (e = IndexOutOfRange (length (SubAuthority s)) (length (SubAuthority s))
                \<and> length (SubAuthority s) < unat (SubAuthorityCount s)))
       \<and> ((\<forall>m. fst (ToWriter_loop wr s i w) \<noteq> Some (WriteError m)) \<longrightarrow>
            accepted (snd (ToWriter_loop wr s i w))
              = accepted w @ concat (map u32_le
                  (drop i (take (unat (SubAuthorityCount s)) (SubAuthority s)))))"
  using assms
proof (induction wr s i w rule: ToWriter_loop.induct)
  case (1 wr s i w)
  show ?case
  proof (cases "i < unat (SubAuthorityCount s)")
    case False
    with "1.prems" show ?thesis
      by (simp add: ToWriter_loop.simps [of wr s i w])
  next
    case inloop: True
    show ?thesis
    proof (cases "i \<ge> length (SubAuthority s)")
      case True
      with inloop have "ToWriter_loop wr s i w
          = (Some (IndexOutOfRange i (length (SubAuthority s))), w)"
        by (simp add: ToWriter_loop.simps [of wr s i w])
      moreover from True "1.prems" have "i = length (SubAuthority s)" by simp
      ultimately show ?thesis
        using inloop by simp
    next
      case False
      then have i: "i < length (SubAuthority s)" by simp
      show ?thesis
      proof (cases rule: binary_Write_cases [of wr w "PutUint32_le (SubAuthority s ! i)"])
        case (ok st)
        let ?w' = "\<lparr>state = st, accepted = accepted w @ PutUint32_le (SubAuthority s ! i)\<rparr>"
        have unf: "ToWriter_loop wr s i w = ToWriter_loop wr s (i + 1) ?w'"
          using inloop i ok by (simp add: ToWriter_loop.simps [of wr s i w])
        from i have "i + 1 \<le> length (SubAuthority s)" by simp
        then show ?thesis
          unfolding unf
          using "1.IH" [OF inloop False ok [symmetric] refl] drop_take_step [OF inloop i]
          by (simp add: PutUint32_le_u32_le)
      next
        case (err m st)
        then have "\<not> accepts_all wr"
          by (auto simp add: accepts_all_def)
        with inloop i err show ?thesis
          by (simp add: ToWriter_loop.simps [of wr s i w])
      qed
    qed
  qed
qed

lemma ToWriter_spec:
  "(fst (ToWriter wr s w) = None \<longrightarrow>
            unat (SubAuthorityCount s) \<le> length (SubAuthority s))
       \<and> (\<forall>e. fst (ToWriter wr s w) = Some e \<longrightarrow>
            (\<exists>m. e = WriteError m \<and> \<not> accepts_all wr)
            \<or> (e = IndexOutOfRange (length (SubAuthority s)) (length (SubAuthority s))
                \<and> length (SubAuthority s) < unat (SubAuthorityCount s)))
       \<and> ((\<forall>m. fst (ToWriter wr s w) \<noteq> Some (WriteError m)) \<longrightarrow>
            accepted (snd (ToWriter wr s w))
              = accepted w @ wire_format s (unat (SubAuthorityCount s)))"
proof (cases rule: binary_Write_cases [of wr w "[Revision s]"])
  case (err m st)
  then have "\<not> accepts_all wr" by (auto simp add: accepts_all_def)
  with err show ?thesis by (simp add: ToWriter_def)
next
  case ok1: (ok st1)
  let ?w1 = "\<lparr>state = st1, accepted = accepted w @ [Revision s]\<rparr>"
  show ?thesis
  proof (cases rule: binary_Write_cases [of wr ?w1 "[SubAuthorityCount s]"])
    case (err m st)
    then have "\<not> accepts_all wr" by (auto simp add: accepts_all_def)
    with ok1 err show ?thesis by (simp add: ToWriter_def)
  next
    case ok2: (ok st2)
    let ?w2 = "\<lparr>state = st2, accepted = accepted ?w1 @ [SubAuthorityCount s]\<rparr>"
    show ?thesis
    proof (cases rule: binary_Write_cases [of wr ?w2 "slice6 (IdentifierAuthority s)"])
      case (err m st)
      then have "\<not> accepts_all wr" by (auto simp add: accepts_all_def)
      with ok1 ok2 err show ?thesis by (simp add: ToWriter_def)
    next
      case ok3: (ok st3)
      let ?w3 = "\<lparr>state = st3, accepted = accepted ?w2 @ slice6 (IdentifierAuthority s)\<rparr>"
      have unf: "ToWriter wr s w = ToWriter_loop wr s 0 ?w3"
        using ok1 ok2 ok3 by (simp add: ToWriter_def)
      show ?thesis
        unfolding unf using ToWriter_loop_spec [of 0 s wr ?w3]
        by (simp add: wire_format_def)
    qed
  qed
qed


lemma accepts_all_buffer_writer: "accepts_all buffer_writer"
  by (simp add: accepts_all_def buffer_writer_def)

lemmas eval_bytes = wire_format_def u32_le_def new_sink_def

text \<open>
  C3. The loop of the binary write is bounded by \<open>SubAuthorityCount\<close>, not by the length
  of \<open>SubAuthority\<close>. With the count above the length the write never completes: on a
  writer that rejects nothing it stops with the out-of-range error at index
  \<open>length SubAuthority\<close>, after the header and all the entries there are, and reads
  nothing past the end. With the count below the length a write that completes has
  written the header and exactly the first \<open>SubAuthorityCount\<close> entries, and on a
  writer that rejects nothing it completes.
\<close>

theorem ToWriter_count_governs:
  "(length (SubAuthority s) < unat (SubAuthorityCount s) \<longrightarrow>
      fst (ToWriter wr s w) \<noteq> None
      \<and> (accepts_all wr \<longrightarrow>
           fst (ToWriter wr s w)
             = Some (IndexOutOfRange (length (SubAuthority s)) (length (SubAuthority s)))
           \<and> accepted (snd (ToWriter wr s w))
             = accepted w @ wire_format s (length (SubAuthority s))))
   \<and> (unat (SubAuthorityCount s) < length (SubAuthority s) \<longrightarrow>
      (fst (ToWriter wr s w) = None \<longrightarrow>
         accepted (snd (ToWriter wr s w))
           = accepted w @ wire_format s (unat (SubAuthorityCount s)))
      \<and> (accepts_all wr \<longrightarrow> fst (ToWriter wr s w) = None))"
proof -
  note spec = ToWriter_spec [of wr s w]
  have over: "wire_format s (unat (SubAuthorityCount s)) = wire_format s (length (SubAuthority s))"
    if "length (SubAuthority s) < unat (SubAuthorityCount s)"
    using that by (simp add: wire_format_def)
  show ?thesis
  proof (intro conjI impI)
    assume "length (SubAuthority s) < unat (SubAuthorityCount s)"
    with spec show "fst (ToWriter wr s w) \<noteq> None" by auto
  next
    assume gt: "length (SubAuthority s) < unat (SubAuthorityCount s)" and acc: "accepts_all wr"
    from gt spec obtain e where e: "fst (ToWriter wr s w) = Some e" by auto
    with spec acc show err: "fst (ToWriter wr s w)
        = Some (IndexOutOfRange (length (SubAuthority s)) (length (SubAuthority s)))"
      by auto
    then have "\<forall>m. fst (ToWriter wr s w) \<noteq> Some (WriteError m)" by simp
    with spec over [OF gt] show "accepted (snd (ToWriter wr s w))
        = accepted w @ wire_format s (length (SubAuthority s))"
      by simp
  next
    assume "fst (ToWriter wr s w) = None"
    with spec show "accepted (snd (ToWriter wr s w))
        = accepted w @ wire_format s (unat (SubAuthorityCount s))"
      by simp
  next
    assume lt: "unat (SubAuthorityCount s) < length (SubAuthority s)" and acc: "accepts_all wr"
    show "fst (ToWriter wr s w) = None"
    proof (cases "fst (ToWriter wr s w)")
      case None
      then show ?thesis .
    next
      case (Some e)
      with spec acc lt show ?thesis by auto
    qed
  qed
qed

theorem ToWriter_count_governs_witness:
  "fst (ToWriter buffer_writer
      \<lparr>Revision = 1, SubAuthorityCount = 5, IdentifierAuthority = Array6 0 0 0 0 0 5,
        SubAuthority = [10, 20, 30]\<rparr> (new_sink ())) = Some (IndexOutOfRange 3 3)
   \<and> accepted (snd (ToWriter buffer_writer
      \<lparr>Revision = 1, SubAuthorityCount = 5, IdentifierAuthority = Array6 0 0 0 0 0 5,
        SubAuthority = [10, 20, 30]\<rparr> (new_sink ())))
       = [1, 5, 0, 0, 0, 0, 0, 5, 10, 0, 0, 0, 20, 0, 0, 0, 30, 0, 0, 0]
   \<and> fst (ToWriter buffer_writer
      \<lparr>Revision = 1, SubAuthorityCount = 2, IdentifierAuthority = Array6 0 0 0 0 0 5,
        SubAuthority = [10, 20, 30]\<rparr> (new_sink ())) = None
   \<and> accepted (snd (ToWriter buffer_writer
      \<lparr>Revision = 1, SubAuthorityCount = 2, IdentifierAuthority = Array6 0 0 0 0 0 5,
        SubAuthority = [10, 20, 30]\<rparr> (new_sink ())))
       = [1, 2, 0, 0, 0, 0, 0, 5, 10, 0, 0, 0, 20, 0, 0, 0]"
  using
    ToWriter_count_governs [of "\<lparr>Revision = 1, SubAuthorityCount = 5,
      IdentifierAuthority = Array6 0 0 0 0 0 5, SubAuthority = [10, 20, 30]\<rparr>"
      buffer_writer "new_sink ()"]
    ToWriter_count_governs [of "\<lparr>Revision = 1, SubAuthorityCount = 2,
      IdentifierAuthority = Array6 0 0 0 0 0 5, SubAuthority = [10, 20, 30]\<rparr>"
      buffer_writer "new_sink ()"]
  by (simp add: accepts_all_buffer_writer eval_bytes)

text \<open>
  C7. With \<open>SubAuthorityCount\<close> at most the length of \<open>SubAuthority\<close>, a write that
  completes has handed to the writer, in this order, the revision as one byte, the count
  as one byte, the six authority bytes as they are stored, and each of the first
  \<open>SubAuthorityCount\<close> sub-authorities as four bytes, least significant first:
  \<open>8 + 4 * SubAuthorityCount\<close> bytes. On a writer that rejects nothing the write
  completes.
\<close>

theorem ToWriter_layout:
  assumes "unat (SubAuthorityCount s) \<le> length (SubAuthority s)"
  shows "(fst (ToWriter wr s w) = None \<longrightarrow>
           accepted (snd (ToWriter wr s w))
             = accepted w @ [Revision s] @ [SubAuthorityCount s] @ slice6 (IdentifierAuthority s)
                 @ concat (map u32_le (take (unat (SubAuthorityCount s)) (SubAuthority s)))
           \<and> length ([Revision s] @ [SubAuthorityCount s] @ slice6 (IdentifierAuthority s)
                 @ concat (map u32_le (take (unat (SubAuthorityCount s)) (SubAuthority s))))
               = 8 + 4 * unat (SubAuthorityCount s))
       \<and> (accepts_all wr \<longrightarrow> fst (ToWriter wr s w) = None)"
proof -
  note spec = ToWriter_spec [of wr s w]
  have len: "length ([Revision s] @ [SubAuthorityCount s] @ slice6 (IdentifierAuthority s)
                 @ concat (map u32_le (take (unat (SubAuthorityCount s)) (SubAuthority s))))
               = 8 + 4 * unat (SubAuthorityCount s)"
    using assms by (simp add: length_slice6 length_concat_u32_le)
  have completes: "fst (ToWriter wr s w) = None" if "accepts_all wr"
  proof (cases "fst (ToWriter wr s w)")
    case None
    then show ?thesis .
  next
    case (Some e)
    with spec that assms show ?thesis by auto
  qed
  from spec len completes show ?thesis
    by (simp add: wire_format_def)
qed

theorem ToWriter_layout_witness:
  "fst (ToWriter buffer_writer
      \<lparr>Revision = 1, SubAuthorityCount = 2, IdentifierAuthority = Array6 1 2 3 4 5 6,
        SubAuthority = [21, 3623811015]\<rparr> (new_sink ())) = None
   \<and> accepted (snd (ToWriter buffer_writer
      \<lparr>Revision = 1, SubAuthorityCount = 2, IdentifierAuthority = Array6 1 2 3 4 5 6,
        SubAuthority = [21, 3623811015]\<rparr> (new_sink ())))
       = [1, 2, 1, 2, 3, 4, 5, 6, 21, 0, 0, 0, 0xc7, 0xf7, 0xfe, 0xd7]"
  using
    ToWriter_layout [of "\<lparr>Revision = 1, SubAuthorityCount = 2,
      IdentifierAuthority = Array6 1 2 3 4 5 6, SubAuthority = [21, 3623811015]\<rparr>"
      buffer_writer "new_sink ()"]
  by (simp add: accepts_all_buffer_writer eval_bytes)

text \<open>
  A writer's own error comes first: on a writer that is full after nine bytes the write
  of a SID whose count is above the length stops at the first sub-authority with the
  writer's error, before the loop reaches the end of the sequence.
\<close>

lemma ToWriter_write_error_first:
  "ToWriter (limited_writer 9)
      \<lparr>Revision = 1, SubAuthorityCount = 5, IdentifierAuthority = Array6 0 0 0 0 0 5,
        SubAuthority = [10, 20, 30]\<rparr> (new_sink 0)
     = (Some (WriteError ''short write''),
        \<lparr>state = 8, accepted = [1, 5, 0, 0, 0, 0, 0, 5]\<rparr>)"
  by (simp add: ToWriter_def ToWriter_loop.simps binary_Write_def limited_writer_def
      new_sink_def PutUint32_le_def)

section \<open>ConvertStrToSID\<close>

lemma parts_of_not_Nil: "parts_of s \<noteq> []"
  using Split_length [of s "CHR ''-''"] by (auto simp add: parts_of_def)

lemma copy6_authBuf:
  "copy6 (Array6 0 0 0 0 0 0) (AppendUint32 (replicate 2 0) v)
     = Array6 0 0 (ucast (drop_bit 24 v)) (ucast (drop_bit 16 v)) (ucast (drop_bit 8 v)) (ucast v)"
  by (simp add: copy6_def AppendUint32_def numeral_2_eq_2)

lemma ConvertStrToSID_short:
  "length (parts_of s) < 4 \<Longrightarrow>
     ConvertStrToSID s = (Some zero_RPCSID, Some InvalidSIDRepresentation)"
  by (simp add: ConvertStrToSID_def parts_of_def)

lemma ConvertStrToSID_long:
  assumes "parts_of s = p0 # p1 # p2 # rest" and "rest \<noteq> []"
  shows "ConvertStrToSID s =
     (case ParseUint p1 of
        Inl err \<Rightarrow> (None, Some (RevisionError err))
      | Inr r \<Rightarrow>
          (case ParseUint p2 of
             Inl err \<Rightarrow> (None, Some (AuthorityError err))
           | Inr auth \<Rightarrow>
               (case sub_loop rest 0 [] of
                  Inl err \<Rightarrow> (None, Some (SubAuthorityError err))
                | Inr (subCount, subAuths) \<Rightarrow>
                    (Some \<lparr>Revision = of_nat r, SubAuthorityCount = subCount,
                       IdentifierAuthority =
                         Array6 0 0 (ucast (drop_bit 24 (of_nat auth :: uint32)))
                           (ucast (drop_bit 16 (of_nat auth :: uint32)))
                           (ucast (drop_bit 8 (of_nat auth :: uint32)))
                           (ucast (of_nat auth :: uint32)),
                       SubAuthority = subAuths\<rparr>, None))))"
proof -
  from assms have "\<not> length (Split s (CHR ''-'')) < 4"
    by (cases rest) (simp_all add: parts_of_def)
  moreover from assms have "Split s (CHR ''-'') ! 1 = p1" "Split s (CHR ''-'') ! 2 = p2"
    "drop 3 (Split s (CHR ''-'')) = rest"
    by (simp_all add: parts_of_def)
  ultimately show ?thesis
    unfolding ConvertStrToSID_def Let_def
    by (simp add: copy6_authBuf zero_RPCSID_def split: sum.splits prod.splits)
qed

lemma parts_of_long:
  assumes "4 \<le> length (parts_of s)"
  obtains p0 p1 p2 rest where "parts_of s = p0 # p1 # p2 # rest" and "rest \<noteq> []"
proof -
  from assms obtain p0 t0 where a: "parts_of s = p0 # t0" and "3 \<le> length t0"
    by (cases "parts_of s") auto
  then obtain p1 t1 where b: "t0 = p1 # t1" and "2 \<le> length t1"
    by (cases t0) auto
  then obtain p2 rest where c: "t1 = p2 # rest" and "1 \<le> length rest"
    by (cases t1) auto
  then have "rest \<noteq> []" by auto
  with a b c that show thesis by simp
qed

lemma ParseUint_Inr_iff: "ParseUint p = Inr n \<longleftrightarrow> valid_decimal p \<and> n = dec_value p"
proof (cases "p = []")
  case True
  then show ?thesis by (simp add: ParseUint_def valid_decimal_def)
next
  case False
  have "0 \<le> MaxUint32" by simp
  from ParseUint_loop_Inr_iff [OF this, of p n] False show ?thesis
    by (simp add: ParseUint_def valid_decimal_def dec_value_def MaxUint32_def list_all_iff)
qed

lemma ParseUint_valid: "valid_decimal p \<Longrightarrow> ParseUint p = Inr (dec_value p)"
  by (simp add: ParseUint_Inr_iff)

lemma ParseUint_invalid: "\<not> valid_decimal p \<Longrightarrow> \<exists>e. ParseUint p = Inl e"
  by (cases "ParseUint p") (simp_all add: ParseUint_Inr_iff)

lemma sub_loop_valid:
  "list_all valid_decimal ps \<Longrightarrow>
     sub_loop ps subCount subAuths
       = Inr (subCount + of_nat (length ps), subAuths @ map (\<lambda>p. of_nat (dec_value p)) ps)"
  by (induction ps arbitrary: subCount subAuths) (simp_all add: ParseUint_valid)

lemma sub_loop_invalid:
  "\<not> list_all valid_decimal ps \<Longrightarrow> \<exists>e. sub_loop ps subCount subAuths = Inl e"
proof (induction ps arbitrary: subCount subAuths)
  case Nil
  then show ?case by simp
next
  case (Cons p ps)
  show ?case
  proof (cases "valid_decimal p")
    case True
    with Cons show ?thesis by (simp add: ParseUint_valid)
  next
    case False
    then obtain e where "ParseUint p = Inl e" using ParseUint_invalid by blast
    then show ?thesis by simp
  qed
qed

lemma ConvertStrToSID_success_iff:
  "(\<exists>sid. ConvertStrToSID s = (Some sid, None))
     \<longleftrightarrow> 4 \<le> length (parts_of s) \<and> list_all valid_decimal (tl (parts_of s))"
proof (cases "4 \<le> length (parts_of s)")
  case False
  then show ?thesis by (simp add: ConvertStrToSID_short)
next
  case True
  then obtain p0 p1 p2 rest where p: "parts_of s = p0 # p1 # p2 # rest" and r: "rest \<noteq> []"
    by (rule parts_of_long)
  note unf = ConvertStrToSID_long [OF p r]
  show ?thesis
  proof (cases "valid_decimal p1 \<and> valid_decimal p2 \<and> list_all valid_decimal rest")
    case valid: True
    with unf have "\<exists>sid. ConvertStrToSID s = (Some sid, None)"
      by (simp add: ParseUint_valid sub_loop_valid)
    with valid True p show ?thesis by simp
  next
    case False
    then consider "\<not> valid_decimal p1" | "valid_decimal p1" "\<not> valid_decimal p2"
      | "valid_decimal p1" "valid_decimal p2" "\<not> list_all valid_decimal rest"
      by blast
    then have "\<not> (\<exists>sid. ConvertStrToSID s = (Some sid, None))"
    proof cases
      case 1
      then obtain e where "ParseUint p1 = Inl e" using ParseUint_invalid by blast
      with unf show ?thesis by simp
    next
      case 2
      then obtain e where "ParseUint p2 = Inl e" using ParseUint_invalid by blast
      with unf 2 show ?thesis by (simp add: ParseUint_valid)
    next
      case 3
      then obtain e where "sub_loop rest 0 [] = Inl e" using sub_loop_invalid by blast
      with unf 3 show ?thesis by (simp add: ParseUint_valid)
    qed
    with False p show ?thesis by simp
  qed
qed

lemma ConvertStrToSID_format_error_iff:
  "snd (ConvertStrToSID s) = Some InvalidSIDRepresentation \<longleftrightarrow> length (parts_of s) < 4"
proof (cases "4 \<le> length (parts_of s)")
  case False
  then show ?thesis by (simp add: ConvertStrToSID_short)
next
  case True
  then obtain p0 p1 p2 rest where p: "parts_of s = p0 # p1 # p2 # rest" and r: "rest \<noteq> []"
    by (rule parts_of_long)
  from True ConvertStrToSID_long [OF p r] show ?thesis
    by (simp split: sum.splits prod.splits)
qed

lemma ConvertStrToSID_tail:
  assumes "tl (parts_of s) = tl (parts_of s')"
  shows "ConvertStrToSID s = ConvertStrToSID s'"
proof -
  obtain h t where s: "parts_of s = h # t"
    using parts_of_not_Nil [of s] by (cases "parts_of s") auto
  obtain h' t' where s': "parts_of s' = h' # t'"
    using parts_of_not_Nil [of s'] by (cases "parts_of s'") auto
  from assms s s' have t: "t' = t" by simp
  show ?thesis
  proof (cases "4 \<le> length (parts_of s)")
    case False
    with s s' t show ?thesis by (simp add: ConvertStrToSID_short)
  next
    case True
    then obtain p0 p1 p2 rest where p: "parts_of s = p0 # p1 # p2 # rest" and r: "rest \<noteq> []"
      by (rule parts_of_long)
    with s s' t have p': "parts_of s' = h' # p1 # p2 # rest" by simp
    show ?thesis
      by (simp only: ConvertStrToSID_long [OF p r] ConvertStrToSID_long [OF p' r])
  qed
qed

lemma parts_S_1_5: "parts_of ''S-1-5'' = [''S'', ''1'', ''5'']"
  by (simp add: parts_of_def Split.simps)

lemma parts_S_1_5_21: "parts_of ''S-1-5-21'' = [''S'', ''1'', ''5'', ''21'']"
  by (simp add: parts_of_def Split.simps)

lemma parts_X_1_5_21: "parts_of ''not a SID-1-5-21'' = [''not a SID'', ''1'', ''5'', ''21'']"
  by (simp add: parts_of_def Split.simps)

lemmas eval_parse = ParseUint_def is_digit_def cutoff_def MaxUint32_def Let_def

lemma ConvertStrToSID_S_1_5_21:
  "ConvertStrToSID ''S-1-5-21''
     = (Some \<lparr>Revision = 1, SubAuthorityCount = 1, IdentifierAuthority = Array6 0 0 0 0 0 5,
               SubAuthority = [21]\<rparr>, None)"
  by (simp add: ConvertStrToSID_long [OF parts_S_1_5_21] eval_parse)

lemma valid_decimal_examples: "valid_decimal ''1''" "valid_decimal ''5''" "valid_decimal ''21''"
  by (simp_all add: valid_decimal_def dec_value_def is_digit_def)


text \<open>
  C8, as the code has it. The parse fails with the format error exactly when the string
  has fewer than four parts between dashes, and nothing else about its shape is checked:
  it succeeds exactly when there are at least four parts and every part after the first
  is a decimal unsigned integer that fits in 32 bits (a non-empty string of digits whose
  value is at most 4294967295), and its result is the same for any two strings whose
  parts after the first agree. \<open>S-1-5\<close> fails with the format error and
  \<open>S-1-5-21\<close> succeeds with \<open>SubAuthority = [21]\<close> and \<open>SubAuthorityCount = 1\<close>.
\<close>

theorem ConvertStrToSID_part_count_check:
  "(snd (ConvertStrToSID s) = Some InvalidSIDRepresentation \<longleftrightarrow> length (parts_of s) < 4)
   \<and> ((\<exists>sid. ConvertStrToSID s = (Some sid, None))
        \<longleftrightarrow> 4 \<le> length (parts_of s) \<and> list_all valid_decimal (tl (parts_of s)))
   \<and> (tl (parts_of s) = tl (parts_of s') \<longrightarrow> ConvertStrToSID s = ConvertStrToSID s')
   \<and> snd (ConvertStrToSID ''S-1-5'') = Some InvalidSIDRepresentation
   \<and> (\<exists>sid. ConvertStrToSID ''S-1-5-21'' = (Some sid, None)
          \<and> SubAuthority sid = [21] \<and> SubAuthorityCount sid = 1)"
proof -
  have "snd (ConvertStrToSID ''S-1-5'') = Some InvalidSIDRepresentation"
    by (simp add: ConvertStrToSID_short parts_S_1_5)
  moreover have "\<exists>sid. ConvertStrToSID ''S-1-5-21'' = (Some sid, None)
          \<and> SubAuthority sid = [21] \<and> SubAuthorityCount sid = 1"
    by (simp add: ConvertStrToSID_S_1_5_21)
  ultimately show ?thesis
    using ConvertStrToSID_format_error_iff [of s] ConvertStrToSID_success_iff [of s]
      ConvertStrToSID_tail [of s s']
    by blast
qed

theorem ConvertStrToSID_part_count_check_witness:
  "ConvertStrToSID ''not a SID-1-5-21'' = ConvertStrToSID ''S-1-5-21''
   \<and> (\<exists>sid. ConvertStrToSID ''not a SID-1-5-21'' = (Some sid, None))
   \<and> snd (ConvertStrToSID ''not a SID-1-5'') = Some InvalidSIDRepresentation"
proof -
  have "parts_of ''not a SID-1-5'' = [''not a SID'', ''1'', ''5'']"
    by (simp add: parts_of_def Split.simps)
  then have "length (parts_of ''not a SID-1-5'') < 4" by simp
  moreover have "tl (parts_of ''not a SID-1-5-21'') = tl (parts_of ''S-1-5-21'')"
    and "4 \<le> length (parts_of ''not a SID-1-5-21'')"
    and "list_all valid_decimal (tl (parts_of ''not a SID-1-5-21''))"
    by (simp_all add: parts_X_1_5_21 parts_S_1_5_21 valid_decimal_examples)
  ultimately show ?thesis
    using ConvertStrToSID_part_count_check [of "''not a SID-1-5-21''" "''S-1-5-21''"]
      ConvertStrToSID_part_count_check [of "''not a SID-1-5''" "''S-1-5''"]
    by blast
qed

text \<open>
  The claim as written fails at \<open>S-1-5-4294967296\<close>: there are four parts, each part
  after the first is a non-empty string of decimal digits, and the parse fails with the
  range error of the sub-authority, since 4294967296 does not fit in 32 bits.
\<close>

theorem ConvertStrToSID_part_count_check_counterexample:
  "parts_of ''S-1-5-4294967296'' = [''S'', ''1'', ''5'', ''4294967296'']
   \<and> 4 \<le> length (parts_of ''S-1-5-4294967296'')
   \<and> list_all (\<lambda>p. p \<noteq> [] \<and> list_all is_digit p) (tl (parts_of ''S-1-5-4294967296''))
   \<and> ConvertStrToSID ''S-1-5-4294967296'' = (None, Some (SubAuthorityError ErrRange))
   \<and> \<not> valid_decimal ''4294967296''"
proof -
  have p: "parts_of ''S-1-5-4294967296'' = [''S'', ''1'', ''5'', ''4294967296'']"
    by (simp add: parts_of_def Split.simps)
  have "ConvertStrToSID ''S-1-5-4294967296'' = (None, Some (SubAuthorityError ErrRange))"
    by (simp add: ConvertStrToSID_long [OF p] eval_parse)
  moreover have "\<not> valid_decimal ''4294967296''"
    by (simp add: valid_decimal_def dec_value_def)
  moreover have "list_all (\<lambda>p. p \<noteq> [] \<and> list_all is_digit p) [''1'', ''5'', ''4294967296'']"
    by (simp add: is_digit_def)
  ultimately show ?thesis
    by (simp add: p)
qed

text \<open>
  C5 at \<open>S-1-5\<close>: the format error comes back together with a SID that is not
  \<^verbatim>\<open>nil\<close>, the zero value assigned on line 64, while the conversion errors of lines 72,
  77 and 87 come back with \<^verbatim>\<open>nil\<close>.
\<close>

theorem ConvertStrToSID_format_error_value:
  "ConvertStrToSID ''S-1-5''
     = (Some \<lparr>Revision = 0, SubAuthorityCount = 0, IdentifierAuthority = Array6 0 0 0 0 0 0,
               SubAuthority = []\<rparr>, Some InvalidSIDRepresentation)
   \<and> ConvertStrToSID ''S-1-5-abc'' = (None, Some (SubAuthorityError ErrSyntax))"
proof -
  have "parts_of ''S-1-5-abc'' = [''S'', ''1'', ''5'', ''abc'']"
    by (simp add: parts_of_def Split.simps)
  then have "ConvertStrToSID ''S-1-5-abc'' = (None, Some (SubAuthorityError ErrSyntax))"
    by (simp add: ConvertStrToSID_long eval_parse)
  then show ?thesis
    by (simp add: ConvertStrToSID_short parts_S_1_5 zero_RPCSID_def)
qed


lemma parts_of_joined:
  assumes "CHR ''-'' \<notin> set a" and "\<And>x. CHR ''-'' \<notin> set (f x)"
  shows "parts_of (''S-1-'' @ a @ concat (map (\<lambda>x. CHR ''-'' # f x) xs))
     = ''S'' # ''1'' # a # map f xs"
proof -
  let ?tail = "a @ concat (map (\<lambda>x. CHR ''-'' # f x) xs)"
  have "Split (''S'' @ CHR ''-'' # (''1'' @ CHR ''-'' # ?tail)) (CHR ''-'')
      = ''S'' # Split (''1'' @ CHR ''-'' # ?tail) (CHR ''-'')"
    by (rule Split_append_sep) simp
  also have "Split (''1'' @ CHR ''-'' # ?tail) (CHR ''-'') = ''1'' # Split ?tail (CHR ''-'')"
    by (rule Split_append_sep) simp
  also have "Split ?tail (CHR ''-'') = a # map f xs"
    using assms by (rule Split_joined)
  finally show ?thesis by (simp add: parts_of_def)
qed

lemma parts_of_many_zeros:
  "parts_of (''S-1-5'' @ concat (replicate n ''-0'')) = ''S'' # ''1'' # ''5'' # replicate n ''0''"
  using parts_of_joined [of "''5''" "\<lambda>x::unit. ''0''" "replicate n ()"]
  by simp

lemma valid_decimal_zero: "valid_decimal ''0''" and dec_value_zero: "dec_value ''0'' = 0"
  by (simp_all add: valid_decimal_def dec_value_def is_digit_def)

text \<open>What a successful parse does guarantee: the count is the length modulo 256.\<close>

lemma ConvertStrToSID_count_mod:
  assumes "ConvertStrToSID s = (Some sid, None)"
  shows "unat (SubAuthorityCount sid) = length (SubAuthority sid) mod 256"
    and "length (SubAuthority sid) = length (parts_of s) - 3"
proof -
  from assms have "4 \<le> length (parts_of s)"
    using ConvertStrToSID_success_iff [of s] by blast
  then obtain p0 p1 p2 rest where p: "parts_of s = p0 # p1 # p2 # rest" and r: "rest \<noteq> []"
    by (rule parts_of_long)
  from assms ConvertStrToSID_long [OF p r]
  obtain c subs where sl: "sub_loop rest 0 [] = Inr (c, subs)"
    and c: "SubAuthorityCount sid = c" and subs: "SubAuthority sid = subs"
    by (auto split: sum.splits prod.splits)
  from sub_loop_result [OF sl] have "c = of_nat (length rest)" and "length subs = length rest"
    by simp_all
  with c subs p show "unat (SubAuthorityCount sid) = length (SubAuthority sid) mod 256"
    and "length (SubAuthority sid) = length (parts_of s) - 3"
    by (simp_all add: unat_of_nat)
qed

lemma ConvertStrToSID_many_zeros:
  assumes "0 < n"
  shows "ConvertStrToSID (''S-1-5'' @ concat (replicate n ''-0''))
     = (Some \<lparr>Revision = 1, SubAuthorityCount = of_nat n,
               IdentifierAuthority = Array6 0 0 0 0 0 5, SubAuthority = replicate n 0\<rparr>, None)"
proof -
  from assms have nonempty: "replicate n ''0'' \<noteq> []" by simp
  have "list_all valid_decimal (replicate n ''0'')"
    by (simp add: list_all_iff valid_decimal_zero)
  then have loop: "sub_loop (replicate n ''0'') 0 [] = Inr (of_nat n, replicate n 0)"
    by (simp add: sub_loop_valid dec_value_zero)
  have one: "ParseUint ''1'' = Inr 1" and five: "ParseUint ''5'' = Inr 5"
    by (simp_all add: eval_parse)
  show ?thesis
    unfolding ConvertStrToSID_long [OF parts_of_many_zeros nonempty] one five loop
    by simp
qed

text \<open>
  C4 at a string with 256 sub-authority segments: the parse succeeds, the sequence has
  256 entries and the count, a byte incremented 256 times, is 0.
\<close>

theorem ConvertStrToSID_count_wraps:
  "ConvertStrToSID (''S-1-5'' @ concat (replicate 256 ''-0''))
     = (Some \<lparr>Revision = 1, SubAuthorityCount = 0, IdentifierAuthority = Array6 0 0 0 0 0 5,
               SubAuthority = replicate 256 0\<rparr>, None)"
proof -
  have "(of_nat 256 :: byte) = 0" by simp
  moreover have "(0::nat) < 256" by simp
  ultimately show ?thesis
    using ConvertStrToSID_many_zeros [of 256] by (simp only:)
qed

lemma no_dash_hex_byte: "CHR ''-'' \<notin> set (hex_byte b)"
proof -
  have "unat b < 256" using unsigned_less [of b, where ?'a = nat] by simp
  then have "unat b div 16 < length ''0123456789abcdef''"
    and "unat b mod 16 < length ''0123456789abcdef''"
    by simp_all
  then have "set (hex_byte b) \<subseteq> set ''0123456789abcdef''"
    unfolding hex_byte_def using nth_mem by (metis empty_subsetI insert_subset list.simps(15) set_empty2)
  then show ?thesis by auto
qed

lemma no_dash_lower_hex: "CHR ''-'' \<notin> set (lower_hex bs)"
  by (simp add: lower_hex_def no_dash_hex_byte)

lemma parts_of_String:
  assumes "String V = Some str"
  shows "parts_of str = ''S'' # ''1''
     # (if authority_value (IdentifierAuthority V) > 4294967295
        then ''0x'' @ lower_hex (slice6 (IdentifierAuthority V))
        else fmt_d (authority_value (IdentifierAuthority V)))
     # map (\<lambda>sub. fmt_d (unat sub)) (SubAuthority V)"
proof -
  let ?a = "if authority_value (IdentifierAuthority V) > 4294967295
        then ''0x'' @ lower_hex (slice6 (IdentifierAuthority V))
        else fmt_d (authority_value (IdentifierAuthority V))"
  have "CHR ''-'' \<notin> set ?a"
    by (simp add: no_dash_lower_hex fmt_d_no_dash)
  then have "parts_of (''S-1-'' @ ?a
      @ concat (map (\<lambda>sub. CHR ''-'' # fmt_d (unat sub)) (SubAuthority V)))
    = ''S'' # ''1'' # ?a # map (\<lambda>sub. fmt_d (unat sub)) (SubAuthority V)"
    by (rule parts_of_joined [of ?a "\<lambda>sub. fmt_d (unat sub)" "SubAuthority V"])
      (rule fmt_d_no_dash)
  moreover from assms have "str = ''S-1-'' @ ?a
      @ concat (map (\<lambda>sub. CHR ''-'' # fmt_d (unat sub)) (SubAuthority V))"
    unfolding String_eq sub_text_def by simp
  ultimately show ?thesis by simp
qed

lemma ParseUint_0x: "ParseUint (CHR ''0'' # CHR ''x'' # h) = Inl ErrSyntax"
  by (simp add: eval_parse)


lemma ConvertStrToSID_hex_part:
  assumes "parts_of s = p0 # p1 # (''0x'' @ h) # rest" and "rest \<noteq> []"
  shows "ConvertStrToSID s = (None, Some (AuthorityError ErrSyntax))
       \<or> (\<exists>e. ConvertStrToSID s = (None, Some (RevisionError e)))"
  by (cases "ParseUint p1") (simp_all add: ConvertStrToSID_long [OF assms] ParseUint_0x)

text \<open>
  C9, as the code has it. A string whose part 2 is the hexadecimal authority of the
  renderer never parses. With at least four parts it fails with a numeric conversion
  error and returns no SID: the authority's syntax error, or the revision's error when
  part 1 is not a number. With three parts it fails with the format error, before any
  number is read. So for every SID whose authority is above 4294967295 the parse of its
  rendered string fails.
\<close>

theorem ConvertStrToSID_hex_authority:
  "(2 < length (parts_of s) \<and> parts_of s ! 2 = ''0x'' @ EncodeToString (slice6 a) \<longrightarrow>
      (4 \<le> length (parts_of s) \<longrightarrow>
         ConvertStrToSID s = (None, Some (AuthorityError ErrSyntax))
         \<or> (\<exists>e. ConvertStrToSID s = (None, Some (RevisionError e))))
      \<and> (length (parts_of s) < 4 \<longrightarrow>
         snd (ConvertStrToSID s) = Some InvalidSIDRepresentation)
      \<and> snd (ConvertStrToSID s) \<noteq> None)
   \<and> (4294967295 < authority_value (IdentifierAuthority V) \<longrightarrow>
      (\<exists>str. String V = Some str \<and> snd (ConvertStrToSID str) \<noteq> None))"
proof (intro conjI impI)
  assume "2 < length (parts_of s) \<and> parts_of s ! 2 = ''0x'' @ EncodeToString (slice6 a)"
    and long: "4 \<le> length (parts_of s)"
  then have hex: "parts_of s ! 2 = ''0x'' @ EncodeToString (slice6 a)" by simp
  from long obtain p0 p1 p2 rest where p: "parts_of s = p0 # p1 # p2 # rest" and r: "rest \<noteq> []"
    by (rule parts_of_long)
  from p hex have "parts_of s = p0 # p1 # (''0x'' @ EncodeToString (slice6 a)) # rest"
    by simp
  then show "ConvertStrToSID s = (None, Some (AuthorityError ErrSyntax))
       \<or> (\<exists>e. ConvertStrToSID s = (None, Some (RevisionError e)))"
    using r by (rule ConvertStrToSID_hex_part)
next
  assume "length (parts_of s) < 4"
  then show "snd (ConvertStrToSID s) = Some InvalidSIDRepresentation"
    by (simp add: ConvertStrToSID_short)
next
  assume a: "2 < length (parts_of s) \<and> parts_of s ! 2 = ''0x'' @ EncodeToString (slice6 a)"
  show "snd (ConvertStrToSID s) \<noteq> None"
  proof (cases "4 \<le> length (parts_of s)")
    case False
    then show ?thesis by (simp add: ConvertStrToSID_short)
  next
    case True
    then obtain p0 p1 p2 rest where p: "parts_of s = p0 # p1 # p2 # rest" and r: "rest \<noteq> []"
      by (rule parts_of_long)
    from p a have "parts_of s = p0 # p1 # (''0x'' @ EncodeToString (slice6 a)) # rest"
      by simp
    from ConvertStrToSID_hex_part [OF this r] show ?thesis by auto
  qed
next
  assume big: "4294967295 < authority_value (IdentifierAuthority V)"
  obtain str where str: "String V = Some str"
    using String_eq by blast
  from parts_of_String [OF str] big
  have p: "parts_of str = ''S'' # ''1'' # (''0x'' @ lower_hex (slice6 (IdentifierAuthority V)))
      # map (\<lambda>sub. fmt_d (unat sub)) (SubAuthority V)"
    by simp
  have "snd (ConvertStrToSID str) \<noteq> None"
  proof (cases "SubAuthority V = []")
    case True
    with p show ?thesis by (simp add: ConvertStrToSID_short)
  next
    case False
    then have "map (\<lambda>sub. fmt_d (unat sub)) (SubAuthority V) \<noteq> []" by simp
    from ConvertStrToSID_hex_part [OF p this] show ?thesis by auto
  qed
  with str show "\<exists>str. String V = Some str \<and> snd (ConvertStrToSID str) \<noteq> None"
    by blast
qed

lemma parts_hex_4: "parts_of ''S-1-0x010000000000-21'' = [''S'', ''1'', ''0x010000000000'', ''21'']"
  by (simp add: parts_of_def Split.simps)

lemma parts_hex_3: "parts_of ''S-1-0x010000000000'' = [''S'', ''1'', ''0x010000000000'']"
  by (simp add: parts_of_def Split.simps)

theorem ConvertStrToSID_hex_authority_witness:
  "(ConvertStrToSID ''S-1-0x010000000000-21'' = (None, Some (AuthorityError ErrSyntax))
      \<or> (\<exists>e. ConvertStrToSID ''S-1-0x010000000000-21'' = (None, Some (RevisionError e))))
   \<and> snd (ConvertStrToSID ''S-1-0x010000000000-21'') \<noteq> None
   \<and> (\<exists>str. String \<lparr>Revision = 1, SubAuthorityCount = 1,
         IdentifierAuthority = Array6 1 0 0 0 0 0, SubAuthority = [21]\<rparr> = Some str
        \<and> snd (ConvertStrToSID str) \<noteq> None)"
proof -
  have part: "2 < length (parts_of ''S-1-0x010000000000-21'')
      \<and> parts_of ''S-1-0x010000000000-21'' ! 2
          = ''0x'' @ EncodeToString (slice6 (Array6 1 0 0 0 0 0))"
    by (simp add: parts_hex_4 hextable_def)
  have long: "4 \<le> length (parts_of ''S-1-0x010000000000-21'')"
    by (simp add: parts_hex_4)
  have big: "4294967295 < authority_value (IdentifierAuthority
      \<lparr>Revision = 1, SubAuthorityCount = 1, IdentifierAuthority = Array6 1 0 0 0 0 0,
        SubAuthority = [21]\<rparr>)"
    by simp
  from part long big
    ConvertStrToSID_hex_authority [of "''S-1-0x010000000000-21''" "Array6 1 0 0 0 0 0"
      "\<lparr>Revision = 1, SubAuthorityCount = 1, IdentifierAuthority = Array6 1 0 0 0 0 0,
        SubAuthority = [21]\<rparr>"]
  show ?thesis by blast
qed

text \<open>
  The claim as written fails at the rendered string of the authority \<open>{1,0,0,0,0,0}\<close>
  with no sub-authority: part 2 is the hexadecimal form and the error is the format
  error, not a numeric conversion error.
\<close>

theorem ConvertStrToSID_hex_authority_counterexample:
  "String \<lparr>Revision = 1, SubAuthorityCount = 0, IdentifierAuthority = Array6 1 0 0 0 0 0,
      SubAuthority = []\<rparr> = Some ''S-1-0x010000000000''
   \<and> parts_of ''S-1-0x010000000000'' ! 2 = ''0x'' @ EncodeToString (slice6 (Array6 1 0 0 0 0 0))
   \<and> snd (ConvertStrToSID ''S-1-0x010000000000'') = Some InvalidSIDRepresentation"
  by (simp add: String_eq eval_text parts_hex_3 hextable_def ConvertStrToSID_short)


lemma authority_small:
  assumes "authority_value a \<le> 4294967295"
  obtains b2 b3 b4 b5 where "a = Array6 0 0 b2 b3 b4 b5"
proof (cases a)
  case (Array6 b0 b1 b2 b3 b4 b5)
  with assms have "unat b0 * 2 ^ 40 + unat b1 * 2 ^ 32 \<le> 4294967295" by simp
  then have "unat b0 = 0" and "unat b1 = 0" by simp_all
  then have "b0 = 0" and "b1 = 0" by (simp_all add: unsigned_eq_0_iff)
  with Array6 that show thesis by simp
qed

lemma authority_bytes_back:
  assumes "authority_value a \<le> 4294967295"
  shows "Array6 0 0 (ucast (drop_bit 24 (of_nat (authority_value a) :: uint32)))
           (ucast (drop_bit 16 (of_nat (authority_value a) :: uint32)))
           (ucast (drop_bit 8 (of_nat (authority_value a) :: uint32)))
           (ucast (of_nat (authority_value a) :: uint32)) = a"
proof -
  from assms obtain b2 b3 b4 b5 where a: "a = Array6 0 0 b2 b3 b4 b5"
    by (rule authority_small)
  define i :: uint64 where
    "i = ucast b5 OR push_bit 8 (ucast b4) OR push_bit 16 (ucast b3) OR push_bit 24 (ucast b2)"
  have "unat i = authority_value a"
    unfolding i_def a using be48_unat [of b5 b4 b3 b2 0 0] by simp
  moreover have "AppendUint32 [0, 0] (of_nat (unat i)) = [0, 0, b2, b3, b4, b5]"
    unfolding i_def by (rule byte_of_u32)
  ultimately show ?thesis
    by (simp add: AppendUint32_def a)
qed

text \<open>
  C1, as the code has it. For every SID whose count equals the length of its
  sub-authority sequence, whose authority is at most 4294967295, whose revision is 1 and
  which has at least one sub-authority, parsing its rendered string succeeds and gives
  the same SID back, field for field.
\<close>

theorem String_ConvertStrToSID_roundtrip:
  assumes "unat (SubAuthorityCount V) = length (SubAuthority V)"
    and "authority_value (IdentifierAuthority V) \<le> 4294967295"
    and "Revision V = 1"
    and "SubAuthority V \<noteq> []"
  shows "\<exists>str. String V = Some str \<and> ConvertStrToSID str = (Some V, None)"
proof -
  obtain str where str: "String V = Some str"
    using String_eq by blast
  from parts_of_String [OF str] assms(2)
  have p: "parts_of str = ''S'' # ''1'' # fmt_d (authority_value (IdentifierAuthority V))
      # map (\<lambda>sub. fmt_d (unat sub)) (SubAuthority V)"
    by simp
  from assms(4) have r: "map (\<lambda>sub. fmt_d (unat sub)) (SubAuthority V) \<noteq> []" by simp
  have one: "ParseUint ''1'' = Inr 1"
    by (simp add: eval_parse)
  have auth: "ParseUint (fmt_d (authority_value (IdentifierAuthority V)))
      = Inr (authority_value (IdentifierAuthority V))"
    using assms(2) by (simp add: ParseUint_fmt_d MaxUint32_def)
  have "of_nat (length (SubAuthority V)) = SubAuthorityCount V"
    using assms(1) [symmetric] by simp
  then have loop: "sub_loop (map (\<lambda>sub. fmt_d (unat sub)) (SubAuthority V)) 0 []
      = Inr (SubAuthorityCount V, SubAuthority V)"
    by (simp add: sub_loop_rendered)
  have "ConvertStrToSID str
      = (Some \<lparr>Revision = 1, SubAuthorityCount = SubAuthorityCount V,
           IdentifierAuthority = IdentifierAuthority V, SubAuthority = SubAuthority V\<rparr>, None)"
    unfolding ConvertStrToSID_long [OF p r] one auth loop
    by (simp add: authority_bytes_back [OF assms(2)])
  with assms(3) have "ConvertStrToSID str = (Some V, None)"
    by simp
  with str show ?thesis by blast
qed

theorem String_ConvertStrToSID_roundtrip_witness:
  "\<exists>str. String \<lparr>Revision = 1, SubAuthorityCount = 5, IdentifierAuthority = Array6 0 0 0 0 0 5,
        SubAuthority = [21, 3623811015, 3361044348, 30300820, 1013]\<rparr> = Some str
     \<and> ConvertStrToSID str
        = (Some \<lparr>Revision = 1, SubAuthorityCount = 5, IdentifierAuthority = Array6 0 0 0 0 0 5,
             SubAuthority = [21, 3623811015, 3361044348, 30300820, 1013]\<rparr>, None)"
  using String_ConvertStrToSID_roundtrip [of "\<lparr>Revision = 1, SubAuthorityCount = 5,
      IdentifierAuthority = Array6 0 0 0 0 0 5,
      SubAuthority = [21, 3623811015, 3361044348, 30300820, 1013]\<rparr>"]
  by simp

text \<open>
  The claim as written fails at two SIDs whose count equals the length and whose
  authority is 5. With revision 2 the rendered string is \<open>S-1-5-21\<close> and parses to
  revision 1. With no sub-authority the rendered string is \<open>S-1-5\<close>, which has three
  parts and does not parse.
\<close>

theorem String_ConvertStrToSID_roundtrip_counterexample:
  "unat (SubAuthorityCount \<lparr>Revision = 2, SubAuthorityCount = 1,
       IdentifierAuthority = Array6 0 0 0 0 0 5, SubAuthority = [21]\<rparr>)
     = length (SubAuthority \<lparr>Revision = 2, SubAuthorityCount = 1,
       IdentifierAuthority = Array6 0 0 0 0 0 5, SubAuthority = [21]\<rparr>)
   \<and> authority_value (Array6 0 0 0 0 0 5) \<le> 4294967295
   \<and> String \<lparr>Revision = 2, SubAuthorityCount = 1, IdentifierAuthority = Array6 0 0 0 0 0 5,
        SubAuthority = [21]\<rparr> = Some ''S-1-5-21''
   \<and> ConvertStrToSID ''S-1-5-21''
       = (Some \<lparr>Revision = 1, SubAuthorityCount = 1, IdentifierAuthority = Array6 0 0 0 0 0 5,
            SubAuthority = [21]\<rparr>, None)
   \<and> ConvertStrToSID ''S-1-5-21''
       \<noteq> (Some \<lparr>Revision = 2, SubAuthorityCount = 1, IdentifierAuthority = Array6 0 0 0 0 0 5,
            SubAuthority = [21]\<rparr>, None)
   \<and> unat (SubAuthorityCount \<lparr>Revision = 1, SubAuthorityCount = 0,
       IdentifierAuthority = Array6 0 0 0 0 0 5, SubAuthority = []\<rparr>)
     = length (SubAuthority \<lparr>Revision = 1, SubAuthorityCount = 0,
       IdentifierAuthority = Array6 0 0 0 0 0 5, SubAuthority = []\<rparr>)
   \<and> String \<lparr>Revision = 1, SubAuthorityCount = 0, IdentifierAuthority = Array6 0 0 0 0 0 5,
        SubAuthority = []\<rparr> = Some ''S-1-5''
   \<and> snd (ConvertStrToSID ''S-1-5'') = Some InvalidSIDRepresentation"
  by (simp add: String_eq eval_text ConvertStrToSID_S_1_5_21 ConvertStrToSID_short parts_S_1_5)

end
